theory Spec2Isabelle
  imports Main "HOL-Library.AList"
begin

section \<open>Python values used by the CharacterBERT tokenizer\<close>

text \<open>
  A Python \<open>str\<close> is a sequence of Unicode code points; a \<open>bytes\<close> object is a
  sequence of integers in \<open>0..255\<close>. Character ids are Python integers.
\<close>

type_synonym pystr = "nat list"
type_synonym pybytes = "nat list"

datatype error = AssertionError | ValueError | IndexError | UnicodeDecodeError

definition and_then :: "error + 'a \<Rightarrow> ('a \<Rightarrow> error + 'b) \<Rightarrow> error + 'b" where
  "and_then m f = (case m of Inl e \<Rightarrow> Inl e | Inr x \<Rightarrow> f x)"

text \<open>The code points of a string literal of the theory (ASCII only).\<close>

definition str :: "string \<Rightarrow> pystr" where
  "str s = map of_char s"

text \<open>Every code point of a Python \<open>str\<close> is at most \<open>0x10FFFF\<close>.\<close>

definition valid_str :: "pystr \<Rightarrow> bool" where
  "valid_str s = list_all (\<lambda>c. c \<le> 0x10FFFF) s"

text \<open>
  \<open>xs[i] = v\<close>: a negative index counts from the end, an index out of range raises
  \<open>IndexError\<close>.
\<close>

definition list_set :: "'a list \<Rightarrow> int \<Rightarrow> 'a \<Rightarrow> error + 'a list" where
  "list_set xs i v =
     (let n = int (length xs); j = (if i < 0 then n + i else i)
      in if 0 \<le> j \<and> j < n then Inr (xs[nat j := v]) else Inl IndexError)"

text \<open>\<open>xs[:n]\<close>: a negative bound counts from the end.\<close>

definition slice_to :: "'a list \<Rightarrow> int \<Rightarrow> 'a list" where
  "slice_to xs n = (if 0 \<le> n then take (nat n) xs else take (length xs - nat (- n)) xs)"

text \<open>
  \<open>s.encode("utf-8", "ignore")\<close>: the UTF-8 bytes of every code point, a surrogate
  (which has no encoding) being dropped.
\<close>

definition utf8_char :: "nat \<Rightarrow> pybytes" where
  "utf8_char cp =
     (if cp < 0x80 then [cp]
      else if cp < 0x800 then [0xC0 + cp div 64, 0x80 + cp mod 64]
      else if 0xD800 \<le> cp \<and> cp \<le> 0xDFFF then []
      else if cp < 0x10000 then
        [0xE0 + cp div 4096, 0x80 + (cp div 64) mod 64, 0x80 + cp mod 64]
      else
        [0xF0 + cp div 262144, 0x80 + (cp div 4096) mod 64,
         0x80 + (cp div 64) mod 64, 0x80 + cp mod 64])"

definition utf8_encode_ignore :: "pystr \<Rightarrow> pybytes" where
  "utf8_encode_ignore s = concat (map utf8_char s)"

text \<open>
  \<open>bytes.decode("utf-8")\<close>: the strict decoder, which refuses stray continuation
  bytes, overlong forms, surrogates and code points above \<open>0x10FFFF\<close>.
\<close>

definition is_cont :: "nat \<Rightarrow> bool" where
  "is_cont b = (0x80 \<le> b \<and> b \<le> 0xBF)"

fun utf8_decode :: "pybytes \<Rightarrow> pystr option" where
  "utf8_decode [] = Some []"
| "utf8_decode (b # bs) =
     (if b < 0x80 then map_option ((#) b) (utf8_decode bs)
      else if 0xC2 \<le> b \<and> b \<le> 0xDF then
        (case bs of
           c1 # r \<Rightarrow>
             if is_cont c1
             then map_option ((#) ((b - 0xC0) * 64 + (c1 - 0x80))) (utf8_decode r)
             else None
         | _ \<Rightarrow> None)
      else if 0xE0 \<le> b \<and> b \<le> 0xEF then
        (case bs of
           c1 # c2 # r \<Rightarrow>
             if is_cont c1 \<and> is_cont c2 \<and> (if b = 0xE0 then 0xA0 else 0x80) \<le> c1
                \<and> c1 \<le> (if b = 0xED then 0x9F else 0xBF)
             then map_option
                    ((#) ((b - 0xE0) * 4096 + (c1 - 0x80) * 64 + (c2 - 0x80)))
                    (utf8_decode r)
             else None
         | _ \<Rightarrow> None)
      else if 0xF0 \<le> b \<and> b \<le> 0xF4 then
        (case bs of
           c1 # c2 # c3 # r \<Rightarrow>
             if is_cont c1 \<and> is_cont c2 \<and> is_cont c3
                \<and> (if b = 0xF0 then 0x90 else 0x80) \<le> c1
                \<and> c1 \<le> (if b = 0xF4 then 0x8F else 0xBF)
             then map_option
                    ((#) ((b - 0xF0) * 262144 + (c1 - 0x80) * 4096
                          + (c2 - 0x80) * 64 + (c3 - 0x80)))
                    (utf8_decode r)
             else None
         | _ \<Rightarrow> None)
      else None)"

section \<open>Character ids of the special tokens\<close>

definition PAD_CHARACTER_ID :: int where
  "PAD_CHARACTER_ID = 260"

text \<open>
  \<open>special_token_character_ids\<close>: the assertion on \<open>index\<close>, three item assignments
  on a list of \<open>max_word_length\<close> pad characters, then the shift by one.
\<close>

definition special_token_character_ids ::
  "int \<Rightarrow> int \<Rightarrow> int \<Rightarrow> int \<Rightarrow> int \<Rightarrow> error + int list" where
  "special_token_character_ids index bow_character_id eow_character_id
       pad_character_id max_word_length =
     (if \<not> index > 255 then Inl AssertionError
      else
        and_then (list_set (replicate (nat max_word_length) pad_character_id) 0
                    bow_character_id) (\<lambda>character_ids.
        and_then (list_set character_ids 1 index) (\<lambda>character_ids.
        and_then (list_set character_ids 2 eow_character_id) (\<lambda>character_ids.
        Inr (map (\<lambda>index. index + 1) character_ids)))))"

section \<open>The tokenizer and its construction\<close>

text \<open>\<open>token.rstrip("\n")\<close> and \<open>load_vocab\<close> on the lines of the vocabulary file.\<close>

definition rstrip_newline :: "pystr \<Rightarrow> pystr" where
  "rstrip_newline token = rev (dropWhile (\<lambda>c. c = 10) (rev token))"

definition load_vocab :: "pystr list \<Rightarrow> (pystr \<times> int) list" where
  "load_vocab tokens =
     fold (\<lambda>(index, token) vocab. AList.update (rstrip_newline token) (int index) vocab)
       (enumerate 0 tokens) []"

record BasicTokenizer =
  bt_do_lower_case :: bool
  bt_never_split :: "pystr set"
  bt_tokenize_chinese_chars :: bool
  bt_strip_accents :: "bool option"
  bt_do_split_on_punc :: bool

text \<open>\<open>BasicTokenizer.__init__\<close>; \<open>do_split_on_punc\<close> keeps its default here.\<close>

definition BasicTokenizer_init ::
  "bool \<Rightarrow> pystr list option \<Rightarrow> bool \<Rightarrow> bool option \<Rightarrow> bool \<Rightarrow> BasicTokenizer" where
  "BasicTokenizer_init do_lower_case never_split tokenize_chinese_chars strip_accents
       do_split_on_punc =
     \<lparr> bt_do_lower_case = do_lower_case,
       bt_never_split = set (case never_split of None \<Rightarrow> [] | Some ns \<Rightarrow> ns),
       bt_tokenize_chinese_chars = tokenize_chinese_chars,
       bt_strip_accents = strip_accents,
       bt_do_split_on_punc = do_split_on_punc \<rparr>"

record tokenizer =
  mlm_vocab :: "(pystr \<times> int) list"
  mlm_ids_to_tokens :: "(int \<times> pystr) list"
  do_basic_tokenize :: bool
  basic_tokenizer :: "BasicTokenizer option"
  unk_token :: pystr
  sep_token :: pystr
  pad_token :: pystr
  cls_token :: pystr
  mask_token :: pystr
  max_word_length :: int
  bow_character_id :: int
  eow_character_id :: int
  pad_character_id :: int
  cls_character_ids :: "int list"
  sep_character_ids :: "int list"
  mask_character_ids :: "int list"
  pad_character_ids :: "int list"

text \<open>The keyword arguments of \<open>CharacterBertTokenizer.__init__\<close>.\<close>

record init_args =
  arg_mlm_vocab_file :: "pystr option"
  arg_max_word_length :: int
  arg_do_lower_case :: bool
  arg_do_basic_tokenize :: bool
  arg_never_split :: "pystr list option"
  arg_unk_token :: pystr
  arg_sep_token :: pystr
  arg_pad_token :: pystr
  arg_cls_token :: pystr
  arg_mask_token :: pystr
  arg_tokenize_chinese_chars :: bool
  arg_strip_accents :: "bool option"

definition default_args :: init_args where
  "default_args =
     \<lparr> arg_mlm_vocab_file = None,
       arg_max_word_length = 50,
       arg_do_lower_case = True,
       arg_do_basic_tokenize = True,
       arg_never_split = None,
       arg_unk_token = str ''[UNK]'',
       arg_sep_token = str ''[SEP]'',
       arg_pad_token = str ''[PAD]'',
       arg_cls_token = str ''[CLS]'',
       arg_mask_token = str ''[MASK]'',
       arg_tokenize_chinese_chars = True,
       arg_strip_accents = None \<rparr>"

text \<open>
  \<open>CharacterBertTokenizer.__init__\<close>. The files are a map from a path to the lines
  that \<open>readlines\<close> returns; \<open>os.path.isfile\<close> is membership in its domain. A path
  that is \<open>None\<close> or empty is false in the test \<open>if mlm_vocab_file\<close>.
\<close>

definition init :: "(pystr \<rightharpoonup> pystr list) \<Rightarrow> init_args \<Rightarrow> error + tokenizer" where
  "init files a =
     and_then
       (case arg_mlm_vocab_file a of
          None \<Rightarrow> Inr []
        | Some path \<Rightarrow>
            if path = [] then Inr []
            else (case files path of
                    None \<Rightarrow> Inl ValueError
                  | Some tokens \<Rightarrow> Inr (load_vocab tokens))) (\<lambda>vocab.
     if arg_max_word_length a < 3 then Inl ValueError
     else
       and_then (special_token_character_ids 256 258 259 PAD_CHARACTER_ID
                   (arg_max_word_length a)) (\<lambda>cls_ids.
       and_then (special_token_character_ids 257 258 259 PAD_CHARACTER_ID
                   (arg_max_word_length a)) (\<lambda>sep_ids.
       and_then (special_token_character_ids 261 258 259 PAD_CHARACTER_ID
                   (arg_max_word_length a)) (\<lambda>mask_ids.
       Inr \<lparr> mlm_vocab = vocab,
             mlm_ids_to_tokens =
               fold (\<lambda>(ids, tok) d. AList.update ids tok d)
                 (map (\<lambda>(tok, ids). (ids, tok)) vocab) [],
             do_basic_tokenize = arg_do_basic_tokenize a,
             basic_tokenizer =
               (if arg_do_basic_tokenize a
                then Some (BasicTokenizer_init (arg_do_lower_case a) (arg_never_split a)
                             (arg_tokenize_chinese_chars a) (arg_strip_accents a) True)
                else None),
             unk_token = arg_unk_token a,
             sep_token = arg_sep_token a,
             pad_token = arg_pad_token a,
             cls_token = arg_cls_token a,
             mask_token = arg_mask_token a,
             max_word_length = arg_max_word_length a,
             bow_character_id = 258,
             eow_character_id = 259,
             pad_character_id = PAD_CHARACTER_ID,
             cls_character_ids = cls_ids,
             sep_character_ids = sep_ids,
             mask_character_ids = mask_ids,
             pad_character_ids = replicate (nat (arg_max_word_length a)) 0 \<rparr>))))"

section \<open>Tokens to character ids and back\<close>

text \<open>
  The loop \<open>for k, index in enumerate(token_bytes, start=1): character_ids[k] = index\<close>.
\<close>

fun set_bytes :: "int list \<Rightarrow> int \<Rightarrow> int list \<Rightarrow> error + int list" where
  "set_bytes character_ids k [] = Inr character_ids"
| "set_bytes character_ids k (index # rest) =
     and_then (list_set character_ids k index) (\<lambda>character_ids'.
       set_bytes character_ids' (k + 1) rest)"

text \<open>
  The \<open>else\<close> branch of \<open>_convert_token_to_id\<close> before its last statement: the array
  of an ordinary token before the shift.
\<close>

definition unshifted_character_ids :: "tokenizer \<Rightarrow> pystr \<Rightarrow> error + int list" where
  "unshifted_character_ids self token =
     (let token_bytes = slice_to (utf8_encode_ignore token) (max_word_length self - 2)
      in and_then (list_set (replicate (nat (max_word_length self)) (pad_character_id self))
                     0 (bow_character_id self)) (\<lambda>character_ids.
         and_then (set_bytes character_ids 1 (map int token_bytes)) (\<lambda>character_ids.
         list_set character_ids (int (length token_bytes) + 1) (eow_character_id self))))"

definition convert_token_to_id :: "tokenizer \<Rightarrow> pystr \<Rightarrow> error + int list" where
  "convert_token_to_id self token =
     (if token = cls_token self then Inr (cls_character_ids self)
      else if token = sep_token self then Inr (sep_character_ids self)
      else if token = mask_token self then Inr (mask_character_ids self)
      else if token = pad_token self then Inr (pad_character_ids self)
      else and_then (unshifted_character_ids self token) (\<lambda>character_ids.
             Inr (map (\<lambda>index. index + 1) character_ids)))"

text \<open>
  \<open>_convert_id_to_token\<close>. The assertion holds when the length differs from
  \<open>max_word_length\<close>; \<open>bytes(utf8_codes)\<close> raises \<open>ValueError\<close> on a value outside
  \<open>0..255\<close>.
\<close>

definition convert_id_to_token :: "tokenizer \<Rightarrow> int list \<Rightarrow> error + pystr" where
  "convert_id_to_token self character_ids =
     (if \<not> int (length character_ids) \<noteq> max_word_length self then Inl AssertionError
      else
        let character_ids' = map (\<lambda>index. index - 1) character_ids
        in if character_ids' = cls_character_ids self then Inr (cls_token self)
           else if character_ids' = sep_character_ids self then Inr (sep_token self)
           else if character_ids' = mask_character_ids self then Inr (mask_token self)
           else if character_ids' = pad_character_ids self then Inr (pad_token self)
           else
             let utf8_codes =
                   filter (\<lambda>x. x \<noteq> pad_character_id self \<and> x \<noteq> bow_character_id self
                                \<and> x \<noteq> eow_character_id self) character_ids'
             in if list_ex (\<lambda>x. x < 0 \<or> 255 < x) utf8_codes then Inl ValueError
                else (case utf8_decode (map nat utf8_codes) of
                        None \<Rightarrow> Inl UnicodeDecodeError
                      | Some s \<Rightarrow> Inr s))"

section \<open>The vocabulary of the masked language model\<close>

text \<open>\<open>dict.get(key, default)\<close> on a dictionary kept as an association list.\<close>

definition dict_get :: "('k \<times> 'v) list \<Rightarrow> 'k \<Rightarrow> 'd \<Rightarrow> ('v + 'd)" where
  "dict_get d k dflt = (case map_of d k of Some v \<Rightarrow> Inl v | None \<Rightarrow> Inr dflt)"

text \<open>
  \<open>convert_mlm_token_to_id\<close>: the default is itself a lookup, which gives \<open>None\<close>
  when the unknown token is not a key.
\<close>

definition convert_mlm_token_to_id :: "tokenizer \<Rightarrow> pystr \<Rightarrow> int option" where
  "convert_mlm_token_to_id self token =
     (case map_of (mlm_vocab self) token of
        Some i \<Rightarrow> Some i
      | None \<Rightarrow> map_of (mlm_vocab self) (unk_token self))"

definition convert_mlm_id_to_token :: "tokenizer \<Rightarrow> int \<Rightarrow> pystr" where
  "convert_mlm_id_to_token self index =
     (case map_of (mlm_ids_to_tokens self) index of
        Some tok \<Rightarrow> tok
      | None \<Rightarrow> unk_token self)"

section \<open>Sequence assembly\<close>

text \<open>
  Modelled from the spec: the properties \<open>cls_token_id\<close> and \<open>sep_token_id\<close> belong to
  the base class \<open>PreTrainedTokenizer\<close>, which is not among the sources; the spec places
  the CLS and SEP arrays at these positions.
\<close>

definition cls_token_id :: "tokenizer \<Rightarrow> int list" where
  "cls_token_id self = cls_character_ids self"

definition sep_token_id :: "tokenizer \<Rightarrow> int list" where
  "sep_token_id self = sep_character_ids self"

definition build_inputs_with_special_tokens ::
  "tokenizer \<Rightarrow> int list list \<Rightarrow> int list list option \<Rightarrow> int list list" where
  "build_inputs_with_special_tokens self token_ids_0 token_ids_1 =
     (case token_ids_1 of
        None \<Rightarrow> [cls_token_id self] @ token_ids_0 @ [sep_token_id self]
      | Some ids_1 \<Rightarrow>
          (let cls = [cls_token_id self]; sep = [sep_token_id self]
           in cls @ token_ids_0 @ sep @ ids_1 @ sep))"

text \<open>
  \<open>get_special_tokens_mask\<close>. With \<open>already_has_special_tokens\<close> the method returns what
  the base class computes; that method is not among the sources and is the first argument.
\<close>

definition get_special_tokens_mask ::
  "(int list list \<Rightarrow> int list list option \<Rightarrow> error + int list) \<Rightarrow> tokenizer
     \<Rightarrow> int list list \<Rightarrow> int list list option \<Rightarrow> bool \<Rightarrow> error + int list" where
  "get_special_tokens_mask super_mask self token_ids_0 token_ids_1
       already_has_special_tokens =
     (if already_has_special_tokens then super_mask token_ids_0 token_ids_1
      else (case token_ids_1 of
              Some ids_1 \<Rightarrow>
                Inr ([1] @ replicate (length token_ids_0) 0 @ [1]
                       @ replicate (length ids_1) 0 @ [1])
            | None \<Rightarrow> Inr ([1] @ replicate (length token_ids_0) 0 @ [1])))"

definition create_token_type_ids_from_sequences ::
  "tokenizer \<Rightarrow> int list list \<Rightarrow> int list list option \<Rightarrow> int list" where
  "create_token_type_ids_from_sequences self token_ids_0 token_ids_1 =
     (let sep = [sep_token_id self]; cls = [cls_token_id self]
      in case token_ids_1 of
           None \<Rightarrow> replicate (length (cls @ token_ids_0 @ sep)) 0
         | Some ids_1 \<Rightarrow>
             replicate (length (cls @ token_ids_0 @ sep)) 0
               @ replicate (length (ids_1 @ sep)) 1)"

section \<open>Basic tokenization\<close>

text \<open>
  The tokenizer calls functions that are not among the sources: \<open>_is_control\<close>,
  \<open>_is_punctuation\<close> and \<open>_is_whitespace\<close> of \<open>tokenization_utils\<close>, and from the
  standard library \<open>str.lower\<close>, \<open>unicodedata.normalize\<close>, the test
  \<open>unicodedata.category(char) == "Mn"\<close> and the whitespace of \<open>str.strip\<close> and
  \<open>str.split\<close>. They are parameters of the model.
\<close>

record library =
  lib_is_control :: "nat \<Rightarrow> bool"
  lib_is_punctuation :: "nat \<Rightarrow> bool"
  lib_is_whitespace :: "nat \<Rightarrow> bool"
  lib_isspace :: "nat \<Rightarrow> bool"
  lib_lower :: "pystr \<Rightarrow> pystr"
  lib_normalize_NFC :: "pystr \<Rightarrow> pystr"
  lib_normalize_NFD :: "pystr \<Rightarrow> pystr"
  lib_category_Mn :: "nat \<Rightarrow> bool"

text \<open>\<open>text.strip()\<close> and \<open>text.split()\<close>: the words between runs of whitespace.\<close>

definition py_strip :: "library \<Rightarrow> pystr \<Rightarrow> pystr" where
  "py_strip lib text =
     rev (dropWhile (lib_isspace lib) (rev (dropWhile (lib_isspace lib) text)))"

fun split_words :: "(nat \<Rightarrow> bool) \<Rightarrow> pystr \<Rightarrow> pystr \<Rightarrow> pystr list" where
  "split_words sp word [] = (if word = [] then [] else [word])"
| "split_words sp word (c # cs) =
     (if sp c then (if word = [] then split_words sp [] cs
                    else word # split_words sp [] cs)
      else split_words sp (word @ [c]) cs)"

definition py_split :: "library \<Rightarrow> pystr \<Rightarrow> pystr list" where
  "py_split lib text = split_words (lib_isspace lib) [] text"

definition whitespace_tokenize :: "library \<Rightarrow> pystr \<Rightarrow> pystr list" where
  "whitespace_tokenize lib text =
     (let text = py_strip lib text
      in if text = [] then [] else py_split lib text)"

text \<open>\<open>" ".join(tokens)\<close>.\<close>

fun join_space :: "pystr list \<Rightarrow> pystr" where
  "join_space [] = []"
| "join_space [t] = t"
| "join_space (t # ts) = t @ [32] @ join_space ts"

text \<open>
  \<open>_clean_text\<close>: the characters that the loop collects, joined.
\<close>

definition clean_text :: "library \<Rightarrow> pystr \<Rightarrow> pystr" where
  "clean_text lib text =
     concat (map (\<lambda>char.
       if char = 0 \<or> char = 0xFFFD \<or> lib_is_control lib char then []
       else if lib_is_whitespace lib char then [32]
       else [char]) text)"

definition is_chinese_char :: "nat \<Rightarrow> bool" where
  "is_chinese_char cp =
     ((cp \<ge> 0x4E00 \<and> cp \<le> 0x9FFF)
      \<or> (cp \<ge> 0x3400 \<and> cp \<le> 0x4DBF)
      \<or> (cp \<ge> 0x20000 \<and> cp \<le> 0x2A6DF)
      \<or> (cp \<ge> 0x2A700 \<and> cp \<le> 0x2B73F)
      \<or> (cp \<ge> 0x2B740 \<and> cp \<le> 0x2B81F)
      \<or> (cp \<ge> 0x2B820 \<and> cp \<le> 0x2CEAF)
      \<or> (cp \<ge> 0xF900 \<and> cp \<le> 0xFAFF)
      \<or> (cp \<ge> 0x2F800 \<and> cp \<le> 0x2FA1F))"

definition tokenize_chinese_chars :: "pystr \<Rightarrow> pystr" where
  "tokenize_chinese_chars text =
     concat (map (\<lambda>char. if is_chinese_char char then [32, char, 32] else [char]) text)"

definition run_strip_accents :: "library \<Rightarrow> pystr \<Rightarrow> pystr" where
  "run_strip_accents lib text =
     filter (\<lambda>char. \<not> lib_category_Mn lib char) (lib_normalize_NFD lib text)"

text \<open>
  The loop of \<open>_run_split_on_punc\<close> over the characters still to read, with
  \<open>start_new_word\<close> and \<open>output\<close>; \<open>output[-1]\<close> raises \<open>IndexError\<close> on an empty list.
\<close>

fun split_on_punc_loop ::
  "library \<Rightarrow> pystr \<Rightarrow> bool \<Rightarrow> pystr list \<Rightarrow> error + pystr list" where
  "split_on_punc_loop lib [] start_new_word output = Inr output"
| "split_on_punc_loop lib (char # chars) start_new_word output =
     (if lib_is_punctuation lib char
      then split_on_punc_loop lib chars True (output @ [[char]])
      else
        (let output = (if start_new_word then output @ [[]] else output)
         in if output = [] then Inl IndexError
            else split_on_punc_loop lib chars False
                   (butlast output @ [last output @ [char]])))"

text \<open>
  \<open>_run_split_on_punc\<close>. Its test \<open>not self.do_split_on_punc or (never_split is not
  None and text in never_split)\<close> is the conditional below.
\<close>

definition run_split_on_punc ::
  "library \<Rightarrow> BasicTokenizer \<Rightarrow> pystr \<Rightarrow> pystr set option \<Rightarrow> error + pystr list" where
  "run_split_on_punc lib self text never_split =
     (if (if bt_do_split_on_punc self
          then (case never_split of None \<Rightarrow> False | Some ns \<Rightarrow> text \<in> ns)
          else True)
      then Inr [text]
      else split_on_punc_loop lib text True [])"

text \<open>
  The body of the loop of \<open>tokenize\<close> over \<open>orig_tokens\<close>: first the branch on
  \<open>never_split\<close>, casing and accents, then the split on punctuation, which extends
  \<open>split_tokens\<close>.
\<close>

definition cased_token :: "library \<Rightarrow> BasicTokenizer \<Rightarrow> pystr set \<Rightarrow> pystr \<Rightarrow> pystr" where
  "cased_token lib self never_split token =
     (if token \<notin> never_split then
        (if bt_do_lower_case self then
           (let token = lib_lower lib token
            in if bt_strip_accents self \<noteq> Some False
               then run_strip_accents lib token else token)
         else if bt_strip_accents self = Some True
         then run_strip_accents lib token
         else token)
      else token)"

fun tokenize_loop ::
  "library \<Rightarrow> BasicTokenizer \<Rightarrow> pystr set \<Rightarrow> pystr list \<Rightarrow> pystr list
     \<Rightarrow> error + pystr list" where
  "tokenize_loop lib self never_split [] split_tokens = Inr split_tokens"
| "tokenize_loop lib self never_split (token # orig_tokens) split_tokens =
     (let token = cased_token lib self never_split token
      in and_then (run_split_on_punc lib self token (Some never_split)) (\<lambda>pieces.
           tokenize_loop lib self never_split orig_tokens (split_tokens @ pieces)))"

text \<open>\<open>BasicTokenizer.tokenize\<close>; an empty or absent \<open>never_split\<close> adds nothing.\<close>

definition tokenize ::
  "library \<Rightarrow> BasicTokenizer \<Rightarrow> pystr \<Rightarrow> pystr list option \<Rightarrow> error + pystr list" where
  "tokenize lib self text never_split =
     (let never_split =
            (case never_split of
               None \<Rightarrow> bt_never_split self
             | Some ns \<Rightarrow> if ns = [] then bt_never_split self
                          else bt_never_split self \<union> set ns);
          text = clean_text lib text;
          text = (if bt_tokenize_chinese_chars self then tokenize_chinese_chars text
                  else text);
          unicode_normalized_text = lib_normalize_NFC lib text;
          orig_tokens = whitespace_tokenize lib unicode_normalized_text
      in and_then (tokenize_loop lib self never_split orig_tokens []) (\<lambda>split_tokens.
           Inr (whitespace_tokenize lib (join_space split_tokens))))"

text \<open>
  What the library does on ASCII characters and ASCII strings, from the Unicode
  character database: the control characters other than tab, line feed and carriage
  return, the whitespace of \<open>_is_whitespace\<close> and of \<open>str.split\<close>, no combining mark,
  lowercasing of the letters \<open>A\<close> to \<open>Z\<close>, and normal forms that change nothing.
\<close>

definition ascii :: "pystr \<Rightarrow> bool" where
  "ascii s = list_all (\<lambda>c. c < 128) s"

definition ascii_lower :: "nat \<Rightarrow> nat" where
  "ascii_lower c = (if 65 \<le> c \<and> c \<le> 90 then c + 32 else c)"

definition ascii_library :: "library \<Rightarrow> bool" where
  "ascii_library lib =
     ((\<forall>c < 128. lib_is_control lib c = ((c < 32 \<and> c \<notin> {9, 10, 13}) \<or> c = 127))
      \<and> (\<forall>c < 128. lib_is_whitespace lib c = (c \<in> {9, 10, 13, 32}))
      \<and> (\<forall>c < 128. lib_isspace lib c = (c \<in> {9, 10, 11, 12, 13, 28, 29, 30, 31, 32}))
      \<and> (\<forall>c < 128. \<not> lib_category_Mn lib c)
      \<and> (\<forall>s. ascii s \<longrightarrow> lib_lower lib s = map ascii_lower s)
      \<and> (\<forall>s. ascii s \<longrightarrow> lib_normalize_NFC lib s = s)
      \<and> (\<forall>s. ascii s \<longrightarrow> lib_normalize_NFD lib s = s))"

text \<open>
  A library that is the Unicode character database on ASCII text and on the strings over
  \<open>J\<close>, \<open>j\<close>, the combining caron \<open>U+030C\<close> and \<open>U+01F0\<close> (j with caron), whose canonical
  decomposition is \<open>j\<close> followed by \<open>U+030C\<close>; \<open>J\<close> followed by \<open>U+030C\<close> has no
  composed form. Outside these strings it is not the library of Python.
\<close>

fun compose_j_caron :: "pystr \<Rightarrow> pystr" where
  "compose_j_caron [] = []"
| "compose_j_caron [c] = [c]"
| "compose_j_caron (c # d # cs) =
     (if c = 0x6A \<and> d = 0x30C then 0x1F0 # compose_j_caron cs
      else c # compose_j_caron (d # cs))"

definition sample_library :: library where
  "sample_library =
     \<lparr> lib_is_control = (\<lambda>c. (c < 32 \<and> c \<notin> {9, 10, 13}) \<or> c = 127),
       lib_is_punctuation =
         (\<lambda>c. (33 \<le> c \<and> c \<le> 47) \<or> (58 \<le> c \<and> c \<le> 64)
               \<or> (91 \<le> c \<and> c \<le> 96) \<or> (123 \<le> c \<and> c \<le> 126)),
       lib_is_whitespace = (\<lambda>c. c \<in> {9, 10, 13, 32}),
       lib_isspace = (\<lambda>c. c \<in> {9, 10, 11, 12, 13, 28, 29, 30, 31, 32}),
       lib_lower = map ascii_lower,
       lib_normalize_NFC = compose_j_caron,
       lib_normalize_NFD =
         (\<lambda>s. concat (map (\<lambda>c. if c = 0x1F0 then [0x6A, 0x30C] else [c]) s)),
       lib_category_Mn = (\<lambda>c. c = 0x30C) \<rparr>"

text \<open>
  The second run of \<open>tokenize\<close>, on the tokens of a first run joined by spaces. The
  set that \<open>tokenize\<close> computes from \<open>never_split\<close>; the joined tokens after the
  isolation of CJK characters, which is what the second run normalizes; and the
  condition that the library leaves the tokens alone in the second run: cleaning keeps
  every character of them, a CJK character in them is a token of its own when CJK
  characters are isolated, NFC normalization does not change the joined tokens, and the
  casing and accent branch of the loop body does not change any token.
\<close>

definition never_split_union :: "BasicTokenizer \<Rightarrow> pystr list option \<Rightarrow> pystr set" where
  "never_split_union self never_split =
     (case never_split of
        None \<Rightarrow> bt_never_split self
      | Some ns \<Rightarrow> if ns = [] then bt_never_split self
                   else bt_never_split self \<union> set ns)"

definition rejoined :: "BasicTokenizer \<Rightarrow> pystr list \<Rightarrow> pystr" where
  "rejoined self tokens =
     (if bt_tokenize_chinese_chars self then tokenize_chinese_chars (join_space tokens)
      else join_space tokens)"

definition settled ::
  "library \<Rightarrow> BasicTokenizer \<Rightarrow> pystr list option \<Rightarrow> pystr list \<Rightarrow> bool" where
  "settled lib self never_split tokens =
     ((\<forall>p \<in> set tokens. \<forall>c \<in> set p.
          c \<noteq> 0 \<and> c \<noteq> 0xFFFD \<and> \<not> lib_is_control lib c \<and> \<not> lib_is_whitespace lib c)
      \<and> (bt_tokenize_chinese_chars self \<longrightarrow>
            (\<forall>p \<in> set tokens. \<forall>c \<in> set p. is_chinese_char c \<longrightarrow> p = [c]))
      \<and> lib_normalize_NFC lib (rejoined self tokens) = rejoined self tokens
      \<and> (\<forall>p \<in> set tokens.
            cased_token lib self (never_split_union self never_split) p = p))"


text \<open>
  Notions for the proofs about ASCII text: the visible ASCII characters, a non-empty
  word of them, a segment that the split on punctuation produces (one character, or a
  run without punctuation), and a token that the loop body of \<open>tokenize\<close> leaves as
  it is.
\<close>

definition graphic :: "nat \<Rightarrow> bool" where
  "graphic c = (33 \<le> c \<and> c \<le> 126)"

definition graphic_word :: "pystr \<Rightarrow> bool" where
  "graphic_word w = (w \<noteq> [] \<and> list_all graphic w)"

definition piece :: "library \<Rightarrow> pystr \<Rightarrow> bool" where
  "piece lib w = (w \<noteq> [] \<and> (length w = 1 \<or> (\<forall>c \<in> set w. \<not> lib_is_punctuation lib c)))"


definition stable_token :: "library \<Rightarrow> BasicTokenizer \<Rightarrow> pystr set \<Rightarrow> pystr \<Rightarrow> bool" where
  "stable_token lib self ns p =
     (run_split_on_punc lib self (cased_token lib self ns p) (Some ns) = Inr [p])"

section \<open>Construction and the shape of the arrays\<close>

lemma list_set_ok:
  "0 \<le> i \<Longrightarrow> i < int (length xs) \<Longrightarrow> list_set xs i v = Inr (xs[nat i := v])"
  by (simp add: list_set_def Let_def)

lemma and_then_Inr [simp]: "and_then (Inr x) f = f x"
  by (simp add: and_then_def)

lemma and_then_Inl [simp]: "and_then (Inl e) f = Inl e"
  by (simp add: and_then_def)

lemma replicate_split3:
  "3 \<le> n \<Longrightarrow> replicate n p = p # p # p # replicate (n - 3) p"
  by (cases n; simp; rename_tac m; case_tac m; simp; rename_tac k; case_tac k; simp)

lemma special_token_character_ids_eq:
  assumes "3 \<le> n" and "255 < idx"
  shows "special_token_character_ids idx b e p n
           = Inr ([b + 1, idx + 1, e + 1] @ replicate (nat n - 3) (p + 1))"
proof -
  have n3: "3 \<le> nat n" using assms by simp
  show ?thesis
    using assms
    by (simp add: special_token_character_ids_def list_set_def Let_def
          replicate_split3 [OF n3])
qed

lemma set_bytes_eq:
  "0 \<le> k \<Longrightarrow> nat k + length bs \<le> length ids \<Longrightarrow>
   set_bytes ids k bs = Inr (take (nat k) ids @ bs @ drop (nat k + length bs) ids)"
proof (induction bs arbitrary: ids k)
  case Nil
  then show ?case by simp
next
  case (Cons b bs)
  have lt: "nat k < length ids" using Cons.prems by simp
  have ls: "list_set ids k b = Inr (ids[nat k := b])"
    using Cons.prems by (intro list_set_ok) auto
  have k1: "nat (k + 1) = Suc (nat k)" using Cons.prems by simp
  have "set_bytes (ids[nat k := b]) (k + 1) bs
          = Inr (take (nat (k + 1)) (ids[nat k := b]) @ bs
                 @ drop (nat (k + 1) + length bs) (ids[nat k := b]))"
    using Cons.prems by (intro Cons.IH) auto
  then show ?case
    using lt by (simp add: ls k1 take_Suc_conv_app_nth)
qed

lemma init_fields:
  assumes "init files a = Inr self"
  shows "3 \<le> max_word_length self"
    and "bow_character_id self = 258"
    and "eow_character_id self = 259"
    and "pad_character_id self = 260"
    and "cls_character_ids self = [259, 257, 260] @ replicate (nat (max_word_length self) - 3) 261"
    and "sep_character_ids self = [259, 258, 260] @ replicate (nat (max_word_length self) - 3) 261"
    and "mask_character_ids self = [259, 262, 260] @ replicate (nat (max_word_length self) - 3) 261"
    and "pad_character_ids self = replicate (nat (max_word_length self)) 0"
    and "max_word_length self = arg_max_word_length a"
    and "cls_token self = arg_cls_token a"
    and "sep_token self = arg_sep_token a"
    and "mask_token self = arg_mask_token a"
    and "pad_token self = arg_pad_token a"
    and "unk_token self = arg_unk_token a"
  using assms
  by (auto simp: init_def and_then_def special_token_character_ids_eq PAD_CHARACTER_ID_def
           split: option.splits if_splits sum.splits)

lemma unshifted_character_ids_eq:
  assumes "3 \<le> max_word_length self"
  shows "unshifted_character_ids self token =
           Inr (bow_character_id self
                # map int (take (nat (max_word_length self) - 2) (utf8_encode_ignore token))
                @ eow_character_id self
                # replicate (nat (max_word_length self) - 2
                             - length (take (nat (max_word_length self) - 2)
                                         (utf8_encode_ignore token)))
                    (pad_character_id self))"
proof -
  define n where "n = nat (max_word_length self)"
  define tb where "tb = take (n - 2) (utf8_encode_ignore token)"
  define p where "p = pad_character_id self"
  have n3: "3 \<le> n" using assms by (simp add: n_def)
  have len: "length tb \<le> n - 2" by (simp add: tb_def)
  have sl: "slice_to (utf8_encode_ignore token) (max_word_length self - 2) = tb"
    using assms by (simp add: slice_to_def tb_def n_def nat_diff_distrib)
  have s0: "list_set (replicate n p) 0 (bow_character_id self)
              = Inr (bow_character_id self # replicate (n - 1) p)"
    using n3 by (cases n) (simp_all add: list_set_def)
  define m where "m = n - 2 - length tb"
  have e: "n - 1 - length tb = Suc m" using n3 len by (simp add: m_def)
  have s1: "set_bytes (bow_character_id self # replicate (n - 1) p) 1 (map int tb)
              = Inr (bow_character_id self # map int tb @ replicate (Suc m) p)"
    using n3 len by (subst set_bytes_eq) (auto simp: e [symmetric])
  have s2: "list_set (bow_character_id self # map int tb @ replicate (Suc m) p)
              (int (length tb) + 1) (eow_character_id self)
              = Inr (bow_character_id self # map int tb
                     @ eow_character_id self # replicate m p)"
    by (subst list_set_ok) (auto simp: list_update_append nat_add_distrib)
  have "unshifted_character_ids self token
          = Inr (bow_character_id self # map int tb @ eow_character_id self # replicate m p)"
    unfolding unshifted_character_ids_def Let_def sl
    using s0 s1 s2 by (simp add: n_def [symmetric] p_def [symmetric])
  then show ?thesis
    by (simp add: m_def tb_def n_def p_def)
qed

lemma utf8_char_bytes: "c \<le> 0x10FFFF \<Longrightarrow> b \<in> set (utf8_char c) \<Longrightarrow> b \<le> 255"
  by (auto simp: utf8_char_def split: if_splits) 

lemma utf8_encode_ignore_bytes:
  "valid_str s \<Longrightarrow> b \<in> set (utf8_encode_ignore s) \<Longrightarrow> b \<le> 255"
  by (auto simp: valid_str_def utf8_encode_ignore_def list_all_iff dest: utf8_char_bytes)

lemma convert_token_to_id_ordinary:
  assumes "init files a = Inr self"
    and "token \<noteq> cls_token self" and "token \<noteq> sep_token self"
    and "token \<noteq> mask_token self" and "token \<noteq> pad_token self"
  shows "convert_token_to_id self token =
           Inr (259 # map (\<lambda>b. int b + 1)
                        (take (nat (max_word_length self) - 2) (utf8_encode_ignore token))
                @ 260 # replicate (nat (max_word_length self) - 2
                                   - length (take (nat (max_word_length self) - 2)
                                               (utf8_encode_ignore token))) 261)"
  using assms(2-5) init_fields(1-4) [OF assms(1)]
  by (simp add: convert_token_to_id_def unshifted_character_ids_eq o_def)

lemma convert_token_to_id_length:
  assumes "init files a = Inr self"
  shows "\<exists>ids. convert_token_to_id self token = Inr ids
               \<and> length ids = nat (max_word_length self)"
proof -
  have n3: "3 \<le> nat (max_word_length self)"
    using init_fields(1) [OF assms] by simp
  show ?thesis
    using n3 init_fields(5-8) [OF assms] init_fields(2-4) [OF assms]
      unshifted_character_ids_eq [OF init_fields(1) [OF assms], of token]
    by (auto simp: convert_token_to_id_def)
qed

text \<open>Tokenizers and literals used to instantiate the theorems below.\<close>

lemma init_default: "\<exists>self. init Map.empty default_args = Inr self"
  by (simp add: init_def default_args_def special_token_character_ids_eq)

lemma init_mwl8:
  "\<exists>self. init Map.empty (default_args\<lparr>arg_max_word_length := 8\<rparr>) = Inr self"
  by (simp add: init_def default_args_def special_token_character_ids_eq)

lemma init_with_vocab:
  "\<exists>self. init [str ''v'' \<mapsto> [str ''[UNK]'' @ [10], str ''hello'' @ [10]]]
            (default_args\<lparr>arg_mlm_vocab_file := Some (str ''v'')\<rparr>) = Inr self"
  by (simp add: init_def default_args_def special_token_character_ids_eq str_def)

lemma str_simps: "str ''hi'' = [104, 105]" "str ''[CLS]'' = [91, 67, 76, 83, 93]"
  "str ''[SEP]'' = [91, 83, 69, 80, 93]" "str ''[MASK]'' = [91, 77, 65, 83, 75, 93]"
  "str ''[PAD]'' = [91, 80, 65, 68, 93]" "str ''[UNK]'' = [91, 85, 78, 75, 93]"
  by (simp_all add: str_def)

lemma utf8_hi: "utf8_encode_ignore (str ''hi'') = [104, 105]"
  by (simp add: str_simps utf8_encode_ignore_def utf8_char_def)

lemma init_mlm_vocab:
  assumes "init files a = Inr self"
  shows "mlm_vocab self =
           (case arg_mlm_vocab_file a of
              None \<Rightarrow> []
            | Some path \<Rightarrow> if path = [] then [] else load_vocab (the (files path)))"
    and "mlm_ids_to_tokens self =
           fold (\<lambda>(ids, tok) d. AList.update ids tok d)
             (map (\<lambda>(tok, ids). (ids, tok)) (mlm_vocab self)) []"
  using assms
  by (auto simp: init_def and_then_def split: option.splits if_splits sum.splits)

section \<open>Basic tokenization of ASCII text\<close>

lemma split_words_word:
  "\<forall>c \<in> set w. \<not> sp c \<Longrightarrow> split_words sp word (w @ rest) = split_words sp (word @ w) rest"
  by (induction w arbitrary: word) auto

lemma split_words_spaces:
  "\<forall>c \<in> set t. sp c \<Longrightarrow> split_words sp word t = (if word = [] then [] else [word])"
  by (induction t arbitrary: word) auto

lemma split_words_trailing:
  "\<forall>c \<in> set t. sp c \<Longrightarrow> split_words sp word (u @ t) = split_words sp word u"
  by (induction u arbitrary: word) (auto simp: split_words_spaces)

lemma split_words_leading:
  "split_words sp [] (dropWhile sp s) = split_words sp [] s"
  by (induction s) auto

lemma split_words_rstrip:
  "split_words sp word (rev (dropWhile sp (rev s))) = split_words sp word s"
proof -
  have "s = rev (dropWhile sp (rev s)) @ rev (takeWhile sp (rev s))"
    by (metis rev_append rev_rev_ident takeWhile_dropWhile_id)
  moreover have "\<forall>c \<in> set (rev (takeWhile sp (rev s))). sp c"
    by (auto dest: set_takeWhileD)
  ultimately show ?thesis
    by (metis split_words_trailing)
qed

lemma whitespace_tokenize_eq: "whitespace_tokenize lib text = py_split lib text"
proof -
  have e: "py_split lib (py_strip lib text) = py_split lib text"
    by (simp add: py_split_def py_strip_def split_words_rstrip split_words_leading)
  show ?thesis
  proof (cases "py_strip lib text = []")
    case True
    with e have "py_split lib text = []" by (simp add: py_split_def)
    with True show ?thesis by (simp add: whitespace_tokenize_def)
  next
    case False
    then show ?thesis using e by (simp add: whitespace_tokenize_def)
  qed
qed

lemma split_words_join_space:
  assumes "sp 32" and "\<forall>w \<in> set ws. w \<noteq> [] \<and> (\<forall>c \<in> set w. \<not> sp c)"
  shows "split_words sp [] (join_space ws) = ws"
  using assms(2)
proof (induction ws rule: join_space.induct)
  case 1
  then show ?case by simp
next
  case (2 t)
  then show ?case
    using split_words_word [of t sp "[]" "[]"] by simp
next
  case (3 t v ts)
  have "split_words sp [] (t @ 32 # join_space (v # ts))
          = split_words sp t (32 # join_space (v # ts))"
    using 3 split_words_word [of t sp "[]"] by simp
  then show ?case using 3 assms(1) by simp
qed

lemma split_words_result:
  assumes "\<forall>c \<in> set word. \<not> sp c" and "w \<in> set (split_words sp word s)"
  shows "w \<noteq> [] \<and> (\<forall>c \<in> set w. \<not> sp c) \<and> set w \<subseteq> set word \<union> set s"
  using assms
proof (induction s arbitrary: word)
  case Nil
  then show ?case by (cases "word = []") auto
next
  case (Cons c s)
  show ?case
  proof (cases "sp c")
    case True
    have n: "\<forall>d \<in> set ([]::nat list). \<not> sp d" by simp
    from True Cons.prems(2) have "w = word \<and> word \<noteq> [] \<or> w \<in> set (split_words sp [] s)"
      by (cases "word = []") auto
    then show ?thesis
    proof
      assume "w = word \<and> word \<noteq> []"
      then show ?thesis using Cons.prems(1) by auto
    next
      assume "w \<in> set (split_words sp [] s)"
      from Cons.IH [OF n this] show ?thesis by auto
    qed
  next
    case False
    then have m: "w \<in> set (split_words sp (word @ [c]) s)"
      using Cons.prems by simp
    have k: "\<forall>d \<in> set (word @ [c]). \<not> sp d"
      using Cons.prems False by simp
    from Cons.IH [OF k m] show ?thesis by auto
  qed
qed

lemma split_on_punc_loop_run:
  "\<forall>c \<in> set w. \<not> lib_is_punctuation lib c \<Longrightarrow>
   split_on_punc_loop lib w False (out @ [v]) = Inr (out @ [v @ w])"
  by (induction w arbitrary: v) auto

lemma split_on_punc_loop_piece:
  assumes "piece lib w"
  shows "split_on_punc_loop lib w True [] = Inr [w]"
proof (cases w)
  case Nil
  with assms show ?thesis by (simp add: piece_def)
next
  case (Cons c cs)
  show ?thesis
  proof (cases "lib_is_punctuation lib c")
    case True
    with assms Cons have "cs = []" by (auto simp: piece_def)
    with True Cons show ?thesis by simp
  next
    case False
    with assms Cons have n: "\<forall>d \<in> set cs. \<not> lib_is_punctuation lib d"
      by (auto simp: piece_def)
    have "split_on_punc_loop lib cs False ([] @ [[c]]) = Inr ([] @ [[c] @ cs])"
      using n by (rule split_on_punc_loop_run)
    with False Cons show ?thesis by simp
  qed
qed

lemma split_on_punc_loop_pieces:
  assumes "\<forall>w \<in> set out. piece lib w \<and> set w \<subseteq> S"
    and "set s \<subseteq> S"
    and "snw \<or> (out \<noteq> [] \<and> (\<forall>c \<in> set (last out). \<not> lib_is_punctuation lib c))"
  shows "\<exists>r. split_on_punc_loop lib s snw out = Inr r
             \<and> (\<forall>w \<in> set r. piece lib w \<and> set w \<subseteq> S)"
  using assms
proof (induction s arbitrary: snw out)
  case Nil
  then show ?case by simp
next
  case (Cons c s)
  show ?case
  proof (cases "lib_is_punctuation lib c")
    case True
    have "\<exists>r. split_on_punc_loop lib s True (out @ [[c]]) = Inr r
             \<and> (\<forall>w \<in> set r. piece lib w \<and> set w \<subseteq> S)"
      using Cons.prems by (intro Cons.IH) (auto simp: piece_def)
    with True show ?thesis by simp
  next
    case False
    show ?thesis
    proof (cases snw)
      case True
      have "\<exists>r. split_on_punc_loop lib s False (out @ [[c]]) = Inr r
             \<and> (\<forall>w \<in> set r. piece lib w \<and> set w \<subseteq> S)"
        using Cons.prems False by (intro Cons.IH) (auto simp: piece_def)
      with False True show ?thesis by simp
    next
      case f: False
      with Cons.prems have ne: "out \<noteq> []"
        and l: "\<forall>d \<in> set (last out). \<not> lib_is_punctuation lib d" by auto
      have b: "\<And>w. w \<in> set (butlast out) \<Longrightarrow> piece lib w \<and> set w \<subseteq> S"
        using Cons.prems(1) by (auto dest: in_set_butlastD)
      have ls: "set (last out) \<subseteq> S"
        using Cons.prems(1) ne by auto
      have "\<exists>r. split_on_punc_loop lib s False (butlast out @ [last out @ [c]]) = Inr r
             \<and> (\<forall>w \<in> set r. piece lib w \<and> set w \<subseteq> S)"
        using Cons.prems(2) False l b ls by (intro Cons.IH) (auto simp: piece_def)
      with False f ne show ?thesis by simp
    qed
  qed
qed

lemma tokenize_loop_eq:
  assumes "\<forall>t \<in> set toks.
             run_split_on_punc lib self (cased_token lib self ns t) (Some ns) = Inr (f t)"
  shows "tokenize_loop lib self ns toks acc = Inr (acc @ concat (map f toks))"
  using assms by (induction toks arbitrary: acc) simp_all

lemma graphic_facts:
  assumes "ascii_library lib" and "graphic c"
  shows "c < 128" and "\<not> lib_is_control lib c" and "\<not> lib_is_whitespace lib c"
    and "\<not> lib_isspace lib c" and "c \<noteq> 0" and "c \<noteq> 0xFFFD"
  using assms by (auto simp: ascii_library_def graphic_def)

lemma space_facts:
  assumes "ascii_library lib"
  shows "lib_isspace lib 32" and "\<not> lib_is_control lib 32" and "lib_is_whitespace lib 32"
  using assms by (auto simp: ascii_library_def)

lemma clean_text_ascii:
  assumes "ascii_library lib" and "ascii text"
  shows "\<forall>c \<in> set (clean_text lib text). graphic c \<or> c = 32"
proof -
  have "\<And>c. c < 128 \<Longrightarrow> c \<noteq> 0 \<Longrightarrow> \<not> lib_is_control lib c \<Longrightarrow> \<not> lib_is_whitespace lib c
          \<Longrightarrow> graphic c"
  proof -
    fix c :: nat
    assume c: "c < 128" "c \<noteq> 0" "\<not> lib_is_control lib c" "\<not> lib_is_whitespace lib c"
    from assms(1) c(1,3) have "\<not> ((c < 32 \<and> c \<notin> {9, 10, 13}) \<or> c = 127)"
      by (simp add: ascii_library_def)
    moreover from assms(1) c(1,4) have "c \<notin> {9, 10, 13, 32}"
      by (simp add: ascii_library_def)
    ultimately show "graphic c" using c(1) by (auto simp: graphic_def)
  qed
  then show ?thesis
    using assms(2) by (auto simp: clean_text_def ascii_def list_all_iff split: if_splits)
qed

lemma concat_singletons: "concat (map (\<lambda>c. [c]) s) = s"
  by (induction s) auto

lemma clean_text_fixed:
  assumes "ascii_library lib" and "\<forall>c \<in> set s. graphic c \<or> c = 32"
  shows "clean_text lib s = s"
proof -
  have pt: "(if c = 0 \<or> c = 0xFFFD \<or> lib_is_control lib c then []
             else if lib_is_whitespace lib c then [32] else [c]) = [c]"
    if "c \<in> set s" for c
  proof (cases "c = 32")
    case True
    then show ?thesis using space_facts [OF assms(1)] by simp
  next
    case False
    with that assms(2) have "graphic c" by auto
    then show ?thesis using graphic_facts [OF assms(1), of c] by simp
  qed
  have m: "map (\<lambda>char. if char = 0 \<or> char = 0xFFFD \<or> lib_is_control lib char then []
                    else if lib_is_whitespace lib char then [32] else [char]) s
          = map (\<lambda>c. [c]) s"
    by (rule map_cong [OF refl]) (rule pt)
  show ?thesis unfolding clean_text_def m by (rule concat_singletons)
qed

lemma tokenize_chinese_chars_fixed:
  assumes "\<forall>c \<in> set s. graphic c \<or> c = 32"
  shows "tokenize_chinese_chars s = s"
proof -
  have pt: "(if is_chinese_char c then [32, c, 32] else [c]) = [c]" if "c \<in> set s" for c
    using that assms by (auto simp: is_chinese_char_def graphic_def)
  have m: "map (\<lambda>char. if is_chinese_char char then [32, char, 32] else [char]) s
          = map (\<lambda>c. [c]) s"
    by (rule map_cong [OF refl]) (rule pt)
  show ?thesis unfolding tokenize_chinese_chars_def m by (rule concat_singletons)
qed

lemma ascii_clean:
  assumes "\<forall>c \<in> set s. graphic c \<or> c = 32"
  shows "ascii s"
  using assms by (auto simp: ascii_def list_all_iff graphic_def)

lemma tokenize_clean_text:
  assumes "ascii_library lib" and "ascii text"
  shows "tokenize lib self text never_split
           = tokenize lib self (clean_text lib text) never_split"
  using clean_text_fixed [OF assms(1) clean_text_ascii [OF assms]]
  by (simp add: tokenize_def)

lemma graphic_word_ascii: "graphic_word w \<Longrightarrow> ascii w"
  by (auto simp: graphic_word_def ascii_def list_all_iff graphic_def)

lemma graphic_ascii_lower: "graphic c \<Longrightarrow> graphic (ascii_lower c)"
  by (auto simp: graphic_def ascii_lower_def)

lemma ascii_lower_idem: "ascii_lower (ascii_lower c) = ascii_lower c"
  by (auto simp: ascii_lower_def)

lemma run_strip_accents_ascii:
  assumes "ascii_library lib" and "ascii s"
  shows "run_strip_accents lib s = s"
proof -
  have n: "lib_normalize_NFD lib s = s"
    using assms by (simp add: ascii_library_def)
  have "\<forall>c \<in> set s. \<not> lib_category_Mn lib c"
    using assms by (auto simp: ascii_library_def ascii_def list_all_iff)
  then show ?thesis
    by (simp add: run_strip_accents_def n)
qed

lemma cased_token_ascii:
  assumes "ascii_library lib" and "ascii t"
  shows "cased_token lib self ns t
           = (if t \<notin> ns \<and> bt_do_lower_case self then map ascii_lower t else t)"
proof -
  have l: "lib_lower lib t = map ascii_lower t"
    using assms by (simp add: ascii_library_def)
  have a: "ascii (map ascii_lower t)"
    using assms(2) by (auto simp: ascii_def list_all_iff ascii_lower_def)
  show ?thesis
    by (simp add: cased_token_def Let_def l run_strip_accents_ascii [OF assms(1) a]
          run_strip_accents_ascii [OF assms])
qed

lemma cased_token_graphic:
  assumes "ascii_library lib" and "graphic_word t"
  shows "graphic_word (cased_token lib self ns t)"
  using assms(2)
  by (auto simp: cased_token_ascii [OF assms(1) graphic_word_ascii [OF assms(2)]]
        graphic_word_def list_all_iff graphic_ascii_lower)

lemma lowered_piece_fixed:
  assumes "set p \<subseteq> set (map ascii_lower t)"
  shows "map ascii_lower p = p"
proof -
  have "ascii_lower c = c" if "c \<in> set p" for c
    using that assms by (auto simp: ascii_lower_idem)
  then show ?thesis by (simp add: map_idI)
qed

lemma pieces_stable:
  assumes "ascii_library lib" and "graphic_word t"
  shows "\<exists>r. run_split_on_punc lib self (cased_token lib self ns t) (Some ns) = Inr r
             \<and> (\<forall>p \<in> set r. graphic_word p \<and> stable_token lib self ns p)"
proof -
  define t' where "t' = cased_token lib self ns t"
  have t': "t' = (if t \<notin> ns \<and> bt_do_lower_case self then map ascii_lower t else t)"
    unfolding t'_def by (rule cased_token_ascii [OF assms(1) graphic_word_ascii [OF assms(2)]])
  have g': "graphic_word t'"
    unfolding t'_def by (rule cased_token_graphic [OF assms])
  have c0: "cased_token lib self ns t'
              = (if t' \<notin> ns \<and> bt_do_lower_case self then map ascii_lower t' else t')"
    by (rule cased_token_ascii [OF assms(1) graphic_word_ascii [OF g']])
  have c': "cased_token lib self ns t' = t'"
  proof (cases "t \<notin> ns \<and> bt_do_lower_case self")
    case True
    with t' have "map ascii_lower t' = t'" by (simp add: ascii_lower_idem)
    with c0 show ?thesis by simp
  next
    case False
    with t' have "t' = t" by simp
    with c0 False show ?thesis by auto
  qed
  show ?thesis
  proof (cases "bt_do_split_on_punc self \<and> t' \<notin> ns")
    case False
    then have r: "run_split_on_punc lib self t' (Some ns) = Inr [t']"
      by (auto simp: run_split_on_punc_def)
    have "stable_token lib self ns t'"
      using r by (simp add: stable_token_def c')
    with r g' show ?thesis by (simp add: t'_def)
  next
    case True
    have "\<exists>r. split_on_punc_loop lib t' True [] = Inr r
             \<and> (\<forall>w \<in> set r. piece lib w \<and> set w \<subseteq> set t')"
      by (rule split_on_punc_loop_pieces) auto
    then obtain r where r: "split_on_punc_loop lib t' True [] = Inr r"
      and w: "\<forall>w \<in> set r. piece lib w \<and> set w \<subseteq> set t'" by blast
    have e: "run_split_on_punc lib self t' (Some ns) = Inr r"
      using True r by (simp add: run_split_on_punc_def)
    have "graphic_word p \<and> stable_token lib self ns p" if "p \<in> set r" for p
    proof -
      from w that have pc: "piece lib p" and sub: "set p \<subseteq> set t'" by auto
      have gp: "graphic_word p"
        using pc sub g' by (auto simp: graphic_word_def piece_def list_all_iff)
      have cp: "cased_token lib self ns p = p"
      proof (cases "t \<notin> ns \<and> bt_do_lower_case self")
        case True
        with t' sub have "map ascii_lower p = p"
          by (intro lowered_piece_fixed [of p t]) simp
        then show ?thesis
          by (simp add: cased_token_ascii [OF assms(1) graphic_word_ascii [OF gp]])
      next
        case False
        with t' have "t' = t" by auto
        with False True show ?thesis
          by (auto simp: cased_token_ascii [OF assms(1) graphic_word_ascii [OF gp]])
      qed
      have "run_split_on_punc lib self p (Some ns) = Inr [p]"
        using split_on_punc_loop_piece [OF pc] by (simp add: run_split_on_punc_def)
      then show ?thesis using gp by (simp add: stable_token_def cp)
    qed
    with e show ?thesis by (auto simp: t'_def)
  qed
qed

lemma join_space_chars:
  "c \<in> set (join_space ws) \<Longrightarrow> c = 32 \<or> (\<exists>w \<in> set ws. c \<in> set w)"
  by (induction ws rule: join_space.induct) auto

lemma py_split_join_space:
  assumes "ascii_library lib" and "\<forall>p \<in> set R. graphic_word p"
  shows "py_split lib (join_space R) = R"
  unfolding py_split_def
proof (rule split_words_join_space)
  show "lib_isspace lib 32" by (rule space_facts(1) [OF assms(1)])
  show "\<forall>w \<in> set R. w \<noteq> [] \<and> (\<forall>c \<in> set w. \<not> lib_isspace lib c)"
    using assms(2) graphic_facts(4) [OF assms(1)]
    by (auto simp: graphic_word_def list_all_iff)
qed

lemma tokenize_front:
  assumes "ascii_library lib" and "\<forall>c \<in> set X. graphic c \<or> c = 32"
  shows "tokenize lib self X never_split =
           and_then
             (tokenize_loop lib self
                (case never_split of
                   None \<Rightarrow> bt_never_split self
                 | Some ns \<Rightarrow> if ns = [] then bt_never_split self
                              else bt_never_split self \<union> set ns)
                (py_split lib X) [])
             (\<lambda>split_tokens. Inr (py_split lib (join_space split_tokens)))"
proof -
  have n: "lib_normalize_NFC lib X = X"
    using assms(1) ascii_clean [OF assms(2)] by (simp add: ascii_library_def)
  show ?thesis
    by (simp add: tokenize_def whitespace_tokenize_eq clean_text_fixed [OF assms]
          tokenize_chinese_chars_fixed [OF assms(2)] n)
qed

lemma tokenize_clean:
  assumes "ascii_library lib" and "\<forall>c \<in> set X. graphic c \<or> c = 32"
  shows "\<exists>R. tokenize lib self X never_split = Inr R
             \<and> (\<forall>p \<in> set R. graphic_word p
                   \<and> stable_token lib self
                       (case never_split of
                          None \<Rightarrow> bt_never_split self
                        | Some ns \<Rightarrow> if ns = [] then bt_never_split self
                                     else bt_never_split self \<union> set ns) p)"
proof -
  define ns where "ns = (case never_split of
                          None \<Rightarrow> bt_never_split self
                        | Some ns \<Rightarrow> if ns = [] then bt_never_split self
                                     else bt_never_split self \<union> set ns)"
  have g: "graphic_word t" if "t \<in> set (py_split lib X)" for t
  proof -
    have "t \<noteq> [] \<and> (\<forall>c \<in> set t. \<not> lib_isspace lib c) \<and> set t \<subseteq> set [] \<union> set X"
      using that unfolding py_split_def by (intro split_words_result) auto
    then show ?thesis
      using assms(2) space_facts(1) [OF assms(1)]
      by (auto simp: graphic_word_def list_all_iff)
  qed
  have "\<forall>t \<in> set (py_split lib X).
          \<exists>r. run_split_on_punc lib self (cased_token lib self ns t) (Some ns) = Inr r
             \<and> (\<forall>p \<in> set r. graphic_word p \<and> stable_token lib self ns p)"
    using pieces_stable [OF assms(1) g] by blast
  then obtain f where f: "\<forall>t \<in> set (py_split lib X).
          run_split_on_punc lib self (cased_token lib self ns t) (Some ns) = Inr (f t)
             \<and> (\<forall>p \<in> set (f t). graphic_word p \<and> stable_token lib self ns p)"
    using bchoice [of "set (py_split lib X)"
        "\<lambda>t r. run_split_on_punc lib self (cased_token lib self ns t) (Some ns) = Inr r
             \<and> (\<forall>p \<in> set r. graphic_word p \<and> stable_token lib self ns p)"]
    by blast
  define R where "R = concat (map f (py_split lib X))"
  have l: "tokenize_loop lib self ns (py_split lib X) [] = Inr R"
    using f by (simp add: tokenize_loop_eq [of _ lib self ns f] R_def)
  have p: "\<forall>p \<in> set R. graphic_word p \<and> stable_token lib self ns p"
    using f by (auto simp: R_def)
  then have "py_split lib (join_space R) = R"
    by (intro py_split_join_space [OF assms(1)]) simp
  then have "tokenize lib self X never_split = Inr R"
    using l by (simp add: tokenize_front [OF assms] ns_def [symmetric])
  with p show ?thesis unfolding ns_def by blast
qed

lemma tokenize_stable:
  assumes "ascii_library lib"
    and "\<forall>p \<in> set R. graphic_word p
           \<and> stable_token lib self
               (case never_split of
                  None \<Rightarrow> bt_never_split self
                | Some ns \<Rightarrow> if ns = [] then bt_never_split self
                             else bt_never_split self \<union> set ns) p"
  shows "tokenize lib self (join_space R) never_split = Inr R"
proof -
  define ns where "ns = (case never_split of
                          None \<Rightarrow> bt_never_split self
                        | Some ns \<Rightarrow> if ns = [] then bt_never_split self
                                     else bt_never_split self \<union> set ns)"
  have c: "\<forall>c \<in> set (join_space R). graphic c \<or> c = 32"
    using assms(2) by (auto simp: graphic_word_def list_all_iff dest!: join_space_chars)
  have s: "py_split lib (join_space R) = R"
    using assms(2) by (intro py_split_join_space [OF assms(1)]) simp
  have "\<forall>t \<in> set R.
          run_split_on_punc lib self (cased_token lib self ns t) (Some ns) = Inr [t]"
    using assms(2) by (simp add: stable_token_def ns_def)
  then have "tokenize_loop lib self ns R [] = Inr (concat (map (\<lambda>t. [t]) R))"
    by (simp add: tokenize_loop_eq [of _ lib self ns "\<lambda>t. [t]"])
  then have l: "tokenize_loop lib self ns R [] = Inr R"
    by (simp add: concat_singletons)
  show ?thesis
    using l by (simp add: tokenize_front [OF assms(1) c] s ns_def [symmetric])
qed

lemma compose_j_caron_ascii: "ascii s \<Longrightarrow> compose_j_caron s = s"
  by (induction s rule: compose_j_caron.induct) (auto simp: ascii_def)

lemma decompose_ascii:
  assumes "ascii s"
  shows "concat (map (\<lambda>c. if c = 0x1F0 then [0x6A, 0x30C] else [c]) s) = s"
proof -
  have m: "map (\<lambda>c. if c = (0x1F0::nat) then [0x6A, 0x30C] else [c]) s = map (\<lambda>c. [c]) s"
    using assms by (intro map_cong [OF refl]) (auto simp: ascii_def list_all_iff)
  show ?thesis unfolding m by (rule concat_singletons)
qed

lemma ascii_library_sample: "ascii_library sample_library"
  by (simp add: ascii_library_def sample_library_def compose_j_caron_ascii decompose_ascii)

lemmas eval_defs = tokenize_def whitespace_tokenize_def py_strip_def py_split_def
  clean_text_def tokenize_chinese_chars_def is_chinese_char_def cased_token_def
  run_strip_accents_def run_split_on_punc_def BasicTokenizer_init_def sample_library_def
  ascii_lower_def str_def Let_def

lemma ascii_hi_you: "ascii (str ''Hi, you'')"
  by (simp add: ascii_def str_def)

lemma tokenize_hi_you:
  "tokenize sample_library (BasicTokenizer_init True None True None True)
     (str ''Hi, you'') None = Inr [str ''hi'', str '','', str ''you'']"
  by (simp add: eval_defs)

text \<open>Idempotence on ASCII text, for every setting.\<close>

lemma tokenize_idempotent_ascii:
  assumes "ascii_library lib" and "ascii text"
  shows "\<exists>tokens. tokenize lib self text never_split = Inr tokens
           \<and> tokenize lib self (join_space tokens) never_split = Inr tokens"
proof -
  have c: "\<forall>c \<in> set (clean_text lib text). graphic c \<or> c = 32"
    by (rule clean_text_ascii [OF assms])
  obtain R where r: "tokenize lib self (clean_text lib text) never_split = Inr R"
    and p: "\<forall>p \<in> set R. graphic_word p
                   \<and> stable_token lib self
                       (case never_split of
                          None \<Rightarrow> bt_never_split self
                        | Some ns \<Rightarrow> if ns = [] then bt_never_split self
                                     else bt_never_split self \<union> set ns) p"
    using tokenize_clean [OF assms(1) c] by blast
  have "tokenize lib self text never_split = Inr R"
    using r by (simp add: tokenize_clean_text [OF assms])
  moreover have "tokenize lib self (join_space R) never_split = Inr R"
    by (rule tokenize_stable [OF assms(1) p])
  ultimately show ?thesis by blast
qed

lemma tokenize_idempotent_ascii_example:
  "ascii_library sample_library \<and> ascii (str ''Hi, you'')
   \<and> tokenize sample_library (BasicTokenizer_init True None True None True)
       (str ''Hi, you'') None = Inr [str ''hi'', str '','', str ''you'']
   \<and> tokenize sample_library (BasicTokenizer_init True None True None True)
       (join_space [str ''hi'', str '','', str ''you'']) None
       = Inr [str ''hi'', str '','', str ''you'']"
  using tokenize_idempotent_ascii [OF ascii_library_sample ascii_hi_you,
      of "BasicTokenizer_init True None True None True" None]
    ascii_library_sample ascii_hi_you tokenize_hi_you
  by auto

section \<open>The second run of basic tokenization\<close>

lemma split_words_skip_space: "sp c \<Longrightarrow> split_words sp [] (c # rest) = split_words sp [] rest"
  by simp

















lemma not_settled_j_caron:
  "\<not> settled sample_library (BasicTokenizer_init True None True (Some False) True) None
       [[0x6A, 0x30C]]"
  by (simp add: settled_def rejoined_def never_split_union_def eval_defs)

lemma settled_j_caron_default:
  "tokenize sample_library (BasicTokenizer_init True None True None True)
     [0x4A, 0x30C] None = Inr [[0x6A]]
   \<and> settled sample_library (BasicTokenizer_init True None True None True) None [[0x6A]]"
  by (simp add: settled_def rejoined_def never_split_union_def eval_defs)

lemma settled_j_caron_cased:
  "tokenize sample_library (BasicTokenizer_init False None True None True)
     [0x4A, 0x30C] None = Inr [[0x4A, 0x30C]]
   \<and> settled sample_library (BasicTokenizer_init False None True None True) None
        [[0x4A, 0x30C]]"
  by (simp add: settled_def rejoined_def never_split_union_def eval_defs)

text \<open>The tokens of an ASCII text are settled, for every setting.\<close>

lemma split_on_punc_loop_concat:
  "split_on_punc_loop lib s snw out = Inr r \<Longrightarrow> concat r = concat out @ s"
proof (induction s arbitrary: snw out)
  case Nil
  then show ?case by simp
next
  case (Cons c s)
  show ?case
  proof (cases "lib_is_punctuation lib c")
    case True
    with Cons.prems have "split_on_punc_loop lib s True (out @ [[c]]) = Inr r" by simp
    from Cons.IH [OF this] show ?thesis by simp
  next
    case False
    define o' where "o' = (if snw then out @ [[]] else out)"
    have ne: "o' \<noteq> []"
      using Cons.prems False by (auto simp: o'_def Let_def split: if_splits)
    have "split_on_punc_loop lib s False (butlast o' @ [last o' @ [c]]) = Inr r"
      using Cons.prems False ne by (simp add: o'_def Let_def split: if_splits)
    from Cons.IH [OF this] have "concat r = concat (butlast o' @ [last o']) @ c # s"
      by simp
    moreover have "concat o' = concat out" by (simp add: o'_def)
    ultimately show ?thesis using ne by simp
  qed
qed

lemma run_split_on_punc_concat:
  "run_split_on_punc lib self t ns = Inr r \<Longrightarrow> concat r = t"
  by (auto simp: run_split_on_punc_def dest: split_on_punc_loop_concat split: if_splits)

lemma stable_token_cased:
  "stable_token lib self ns p \<Longrightarrow> cased_token lib self ns p = p"
  using run_split_on_punc_concat [of lib self "cased_token lib self ns p" "Some ns" "[p]"]
  by (simp add: stable_token_def)

lemma settled_ascii:
  assumes "ascii_library lib" and "ascii text"
    and "tokenize lib self text never_split = Inr R"
  shows "settled lib self never_split R"
proof -
  have c: "\<forall>c \<in> set (clean_text lib text). graphic c \<or> c = 32"
    by (rule clean_text_ascii [OF assms(1,2)])
  obtain R' where r: "tokenize lib self (clean_text lib text) never_split = Inr R'"
    and p: "\<forall>p \<in> set R'. graphic_word p
                   \<and> stable_token lib self
                       (case never_split of
                          None \<Rightarrow> bt_never_split self
                        | Some ns \<Rightarrow> if ns = [] then bt_never_split self
                                     else bt_never_split self \<union> set ns) p"
    using tokenize_clean [OF assms(1) c] by blast
  have "R' = R"
    using r assms(3) by (simp add: tokenize_clean_text [OF assms(1,2)])
  with p have g: "\<forall>p \<in> set R. graphic_word p"
    and st: "\<forall>p \<in> set R. stable_token lib self (never_split_union self never_split) p"
    by (simp_all add: never_split_union_def)
  have gc: "graphic d" if "p \<in> set R" "d \<in> set p" for p d
    using g that by (auto simp: graphic_word_def list_all_iff)
  have j: "\<forall>d \<in> set (join_space R). graphic d \<or> d = 32"
    using gc by (auto dest!: join_space_chars)
  have rj: "rejoined self R = join_space R"
    by (simp add: rejoined_def tokenize_chinese_chars_fixed [OF j])
  have n: "lib_normalize_NFC lib (join_space R) = join_space R"
    using assms(1) ascii_clean [OF j] by (simp add: ascii_library_def)
  have k: "d \<noteq> 0 \<and> d \<noteq> 0xFFFD \<and> \<not> lib_is_control lib d \<and> \<not> lib_is_whitespace lib d"
    if "p \<in> set R" "d \<in> set p" for p d
    using graphic_facts [OF assms(1) gc [OF that]] by simp
  have a: "p = [d]" if "p \<in> set R" "d \<in> set p" "is_chinese_char d" for p d
    using gc [OF that(1,2)] that(3) by (auto simp: graphic_def is_chinese_char_def)
  show ?thesis
    unfolding settled_def rj
    using k a n st by (auto dest: stable_token_cased)
qed

section \<open>The claims\<close>

text \<open>
  C1. The claim: decoding fails on the length check exactly when the length of the list
  differs from \<open>max_word_length\<close>, and a list of that length is decoded. The code
  asserts \<open>len(character_ids) != self.max_word_length\<close>, whose message reports a
  mismatch of the two lengths: the assertion fails, with \<open>AssertionError\<close>, exactly on
  the lists whose length equals \<open>max_word_length\<close>, and every other list passes it.
\<close>

theorem C1_length_assertion:
  "(convert_id_to_token self character_ids = Inl AssertionError)
     = (int (length character_ids) = max_word_length self)"
  by (auto simp: convert_id_to_token_def Let_def split: option.splits)

text \<open>
  C2. The claim: decoding the array that encoding returns for CLS, SEP, MASK or PAD
  gives the tag back. In the code the encoding of a special token is its stored array,
  of length \<open>max_word_length\<close>, so decoding it stops at the length assertion; and the
  array after the subtraction of one is none of the four stored arrays, which are kept
  shifted, so the comparisons of the decoder cannot recognise it either.
\<close>

theorem C2_special_tokens_not_decoded:
  assumes "init files a = Inr self"
    and "token \<in> {cls_token self, sep_token self, mask_token self, pad_token self}"
  shows "\<exists>ids. convert_token_to_id self token = Inr ids
               \<and> ids \<in> {cls_character_ids self, sep_character_ids self,
                         mask_character_ids self, pad_character_ids self}
               \<and> convert_id_to_token self ids = Inl AssertionError
               \<and> map (\<lambda>index. index - 1) ids
                    \<notin> {cls_character_ids self, sep_character_ids self,
                        mask_character_ids self, pad_character_ids self}"
proof -
  have n3: "3 \<le> nat (max_word_length self)"
    using init_fields(1) [OF assms(1)] by simp
  note f = init_fields(5-8) [OF assms(1)]
  have sp: "\<exists>ids. convert_token_to_id self token = Inr ids
               \<and> ids \<in> {cls_character_ids self, sep_character_ids self,
                         mask_character_ids self, pad_character_ids self}"
    using assms(2) by (auto simp: convert_token_to_id_def)
  then obtain ids where e: "convert_token_to_id self token = Inr ids"
    and m: "ids \<in> {cls_character_ids self, sep_character_ids self,
                         mask_character_ids self, pad_character_ids self}" by blast
  have l: "int (length ids) = max_word_length self"
    using m n3 f by auto
  have a: "convert_id_to_token self ids = Inl AssertionError"
    using l by (simp add: convert_id_to_token_def)
  have r: "replicate (nat (max_word_length self)) (0::int)
             = 0 # 0 # 0 # replicate (nat (max_word_length self) - 3) 0"
    using n3 by (rule replicate_split3)
  have d: "map (\<lambda>index. index - 1) ids
                    \<notin> {cls_character_ids self, sep_character_ids self,
                        mask_character_ids self, pad_character_ids self}"
    using m f by (auto simp: r)
  show ?thesis using e m a d by blast
qed

theorem C2_witness:
  "\<exists>self ids. init Map.empty default_args = Inr self
      \<and> cls_token self \<in> {cls_token self, sep_token self, mask_token self, pad_token self}
      \<and> convert_token_to_id self (cls_token self) = Inr ids
      \<and> convert_id_to_token self ids = Inl AssertionError"
proof -
  obtain self where i: "init Map.empty default_args = Inr self"
    using init_default by blast
  have m: "cls_token self \<in> {cls_token self, sep_token self, mask_token self, pad_token self}"
    by simp
  show ?thesis
    using i m C2_special_tokens_not_decoded [OF i m] by blast
qed

text \<open>
  C3. The claim: \<open>decode(encode(s)) = s\<close> for an ordinary token that fits. In the code
  every encoding has length \<open>max_word_length\<close>, so decoding it raises
  \<open>AssertionError\<close> at the length assertion, for every token.
\<close>

theorem C3_decode_encode_raises:
  assumes "init files a = Inr self"
  shows "\<exists>ids. convert_token_to_id self s = Inr ids
               \<and> convert_id_to_token self ids = Inl AssertionError"
proof -
  obtain ids where e: "convert_token_to_id self s = Inr ids"
    and l: "length ids = nat (max_word_length self)"
    using convert_token_to_id_length [OF assms] by blast
  have "int (length ids) = max_word_length self"
    using l init_fields(1) [OF assms] by simp
  then have "convert_id_to_token self ids = Inl AssertionError"
    by (simp add: convert_id_to_token_def)
  with e show ?thesis by blast
qed

theorem C3_witness:
  "\<exists>self ids. init Map.empty default_args = Inr self
      \<and> convert_token_to_id self (str ''hi'') = Inr ids
      \<and> convert_id_to_token self ids = Inl AssertionError"
proof -
  obtain self where i: "init Map.empty default_args = Inr self"
    using init_default by blast
  show ?thesis
    using i C3_decode_encode_raises [OF i, of "str ''hi''"] by blast
qed

text \<open>
  C4. The claim: every encoding is a list of \<open>max_word_length\<close> integers in
  \<open>[0, 261]\<close>. The MASK array holds \<open>262\<close>, the marker \<open>261\<close> after the shift: the
  length is as claimed and the entries lie in \<open>[0, 262]\<close>.
\<close>

theorem C4_encode_shape:
  assumes "init files a = Inr self" and "valid_str x"
  shows "\<exists>ids. convert_token_to_id self x = Inr ids
               \<and> length ids = nat (max_word_length self)
               \<and> list_all (\<lambda>i. 0 \<le> i \<and> i \<le> 262) ids"
proof -
  obtain ids where e: "convert_token_to_id self x = Inr ids"
    and l: "length ids = nat (max_word_length self)"
    using convert_token_to_id_length [OF assms(1)] by blast
  note f = init_fields(5-8) [OF assms(1)]
  have b: "\<And>b. b \<in> set (utf8_encode_ignore x) \<Longrightarrow> b \<le> 255"
    using utf8_encode_ignore_bytes [OF assms(2)] by blast
  have "list_all (\<lambda>i. 0 \<le> i \<and> i \<le> 262) ids"
  proof (cases "x \<in> {cls_token self, sep_token self, mask_token self, pad_token self}")
    case True
    then have "ids \<in> {cls_character_ids self, sep_character_ids self,
                         mask_character_ids self, pad_character_ids self}"
      using e by (auto simp: convert_token_to_id_def split: if_splits)
    then show ?thesis using f by (auto simp: list_all_iff)
  next
    case False
    then have "convert_token_to_id self x =
           Inr (259 # map (\<lambda>b. int b + 1)
                        (take (nat (max_word_length self) - 2) (utf8_encode_ignore x))
                @ 260 # replicate (nat (max_word_length self) - 2
                                   - length (take (nat (max_word_length self) - 2)
                                               (utf8_encode_ignore x))) 261)"
      by (intro convert_token_to_id_ordinary [OF assms(1)]) auto
    with e show ?thesis
      by (auto simp: list_all_iff dest!: in_set_takeD b)
  qed
  with e l show ?thesis by blast
qed

theorem C4_witness:
  "\<exists>self ids. init Map.empty default_args = Inr self \<and> valid_str (str ''hi'')
      \<and> convert_token_to_id self (str ''hi'') = Inr ids
      \<and> length ids = 50 \<and> list_all (\<lambda>i. 0 \<le> i \<and> i \<le> 262) ids"
proof -
  obtain self where i: "init Map.empty default_args = Inr self"
    using init_default by blast
  have v: "valid_str (str ''hi'')" by (simp add: valid_str_def str_simps)
  have "max_word_length self = 50"
    using init_fields(9) [OF i] by (simp add: default_args_def)
  then show ?thesis
    using i v C4_encode_shape [OF i v] by auto
qed

theorem C4_counterexample:
  "and_then (init Map.empty (default_args\<lparr>arg_max_word_length := 3\<rparr>))
       (\<lambda>self. convert_token_to_id self (mask_token self)) = Inr [259, 262, 260]
   \<and> \<not> list_all (\<lambda>i. 0 \<le> i \<and> i \<le> (261::int)) [259, 262, 260]"
  by (simp add: init_def default_args_def special_token_character_ids_eq
        convert_token_to_id_def str_simps)

text \<open>
  C5. With \<open>max_word_length = 8\<close> the ordinary token \<open>hi\<close> has the bytes
  \<open>[104, 105]\<close>, the array \<open>[258, 104, 105, 259, 260, 260, 260, 260]\<close> before the
  shift and \<open>[259, 105, 106, 260, 261, 261, 261, 261]\<close> after it.
\<close>

theorem C5_encode_hi:
  assumes "init files a = Inr self" and "max_word_length self = 8"
    and "str ''hi'' \<notin> {cls_token self, sep_token self, mask_token self, pad_token self}"
  shows "utf8_encode_ignore (str ''hi'') = [104, 105]
     \<and> unshifted_character_ids self (str ''hi'')
         = Inr [258, 104, 105, 259, 260, 260, 260, 260]
     \<and> convert_token_to_id self (str ''hi'')
         = Inr [259, 105, 106, 260, 261, 261, 261, 261]"
proof -
  have m: "3 \<le> max_word_length self" using assms(2) by simp
  have r: "replicate 4 (260::int) = [260, 260, 260, 260]"
    by (simp add: eval_nat_numeral)
  have u: "unshifted_character_ids self (str ''hi'')
             = Inr [258, 104, 105, 259, 260, 260, 260, 260]"
    using init_fields(2-4) [OF assms(1)] assms(2)
    by (simp add: unshifted_character_ids_eq [OF m] utf8_hi r)
  have "convert_token_to_id self (str ''hi'')
         = Inr [259, 105, 106, 260, 261, 261, 261, 261]"
    using assms(3) by (simp add: convert_token_to_id_def u)
  with u utf8_hi show ?thesis by simp
qed

theorem C5_witness:
  "\<exists>self. init Map.empty (default_args\<lparr>arg_max_word_length := 8\<rparr>) = Inr self
      \<and> max_word_length self = 8
      \<and> str ''hi'' \<notin> {cls_token self, sep_token self, mask_token self, pad_token self}
      \<and> unshifted_character_ids self (str ''hi'')
         = Inr [258, 104, 105, 259, 260, 260, 260, 260]
      \<and> convert_token_to_id self (str ''hi'')
         = Inr [259, 105, 106, 260, 261, 261, 261, 261]"
proof -
  obtain self where i: "init Map.empty (default_args\<lparr>arg_max_word_length := 8\<rparr>) = Inr self"
    using init_mwl8 by blast
  have m: "max_word_length self = 8"
    using init_fields(9) [OF i] by simp
  have n: "str ''hi'' \<notin> {cls_token self, sep_token self, mask_token self, pad_token self}"
    using init_fields(10-13) [OF i] by (simp add: default_args_def str_simps)
  show ?thesis
    using i m n C5_encode_hi [OF i m n] by blast
qed

text \<open>
  C6. The four special arrays are pairwise distinct, and the encoding of an ordinary
  token is none of them. The theorem holds for every Python string that is not one of
  the special-token strings, hence for every ordinary ASCII token.
\<close>

theorem C6_special_arrays_disjoint:
  assumes "init files a = Inr self" and "valid_str token"
    and "token \<notin> {cls_token self, sep_token self, mask_token self, pad_token self}"
  shows "distinct [cls_character_ids self, sep_character_ids self,
                   mask_character_ids self, pad_character_ids self]
     \<and> (\<exists>ids. convert_token_to_id self token = Inr ids
              \<and> ids \<notin> {cls_character_ids self, sep_character_ids self,
                         mask_character_ids self, pad_character_ids self})"
proof -
  have n3: "3 \<le> nat (max_word_length self)"
    using init_fields(1) [OF assms(1)] by simp
  note f = init_fields(5-8) [OF assms(1)]
  have r: "replicate (nat (max_word_length self)) (0::int)
             = 0 # 0 # 0 # replicate (nat (max_word_length self) - 3) 0"
    using n3 by (rule replicate_split3)
  have d: "distinct [cls_character_ids self, sep_character_ids self,
                   mask_character_ids self, pad_character_ids self]"
    by (simp add: f r)
  define tb where "tb = take (nat (max_word_length self) - 2) (utf8_encode_ignore token)"
  define k where "k = nat (max_word_length self) - 2 - length tb"
  have e: "convert_token_to_id self token
             = Inr (259 # map (\<lambda>b. int b + 1) tb @ 260 # replicate k 261)"
    unfolding tb_def k_def
    using assms(3) by (intro convert_token_to_id_ordinary [OF assms(1)]) auto
  have b: "\<And>b. b \<in> set tb \<Longrightarrow> b \<le> 255"
    using utf8_encode_ignore_bytes [OF assms(2)] by (auto simp: tb_def dest: in_set_takeD)
  have "259 # map (\<lambda>b. int b + 1) tb @ 260 # replicate k 261
          \<notin> {cls_character_ids self, sep_character_ids self,
              mask_character_ids self, pad_character_ids self}"
  proof (cases tb)
    case Nil
    then show ?thesis by (simp add: f r)
  next
    case (Cons c cs)
    then have "c \<le> 255" using b by simp
    then show ?thesis using Cons by (simp add: f r)
  qed
  with d e show ?thesis by simp
qed

theorem C6_witness:
  "\<exists>self ids. init Map.empty default_args = Inr self \<and> valid_str (str ''a'')
      \<and> str ''a'' \<notin> {cls_token self, sep_token self, mask_token self, pad_token self}
      \<and> distinct [cls_character_ids self, sep_character_ids self,
                   mask_character_ids self, pad_character_ids self]
      \<and> convert_token_to_id self (str ''a'') = Inr ids
      \<and> ids \<notin> {cls_character_ids self, sep_character_ids self,
                 mask_character_ids self, pad_character_ids self}"
proof -
  obtain self where i: "init Map.empty default_args = Inr self"
    using init_default by blast
  have v: "valid_str (str ''a'')" by (simp add: valid_str_def str_def)
  have n: "str ''a'' \<notin> {cls_token self, sep_token self, mask_token self, pad_token self}"
    using init_fields(10-13) [OF i] by (simp add: default_args_def str_def)
  show ?thesis
    using i v n C6_special_arrays_disjoint [OF i v n] by blast
qed

text \<open>
  C7. Without \<open>already_has_special_tokens\<close>, the special-tokens mask and the token type
  ids have the length of the built input: \<open>len(a) + 2\<close> for one sequence and
  \<open>len(a) + len(b) + 3\<close> for a pair.
\<close>

theorem C7_mask_and_type_ids_lengths:
  "length (build_inputs_with_special_tokens self token_ids_0 token_ids_1)
     = (case token_ids_1 of None \<Rightarrow> length token_ids_0 + 2
        | Some ids_1 \<Rightarrow> length token_ids_0 + length ids_1 + 3)
   \<and> map_sum id length
        (get_special_tokens_mask super_mask self token_ids_0 token_ids_1 False)
       = Inr (length (build_inputs_with_special_tokens self token_ids_0 token_ids_1))
   \<and> length (create_token_type_ids_from_sequences self token_ids_0 token_ids_1)
       = length (build_inputs_with_special_tokens self token_ids_0 token_ids_1)"
  by (simp add: build_inputs_with_special_tokens_def get_special_tokens_mask_def
        create_token_type_ids_from_sequences_def Let_def split: option.splits)




text \<open>
  C9. The empty string, as an ordinary token, is encoded without error: BOW at position
  0, EOW at position 1, then the pad character, every entry shifted by one, that is
  \<open>[259, 260, 261, 261, ...]\<close>.
\<close>

theorem C9_encode_empty:
  assumes "init files a = Inr self"
    and "[] \<notin> {cls_token self, sep_token self, mask_token self, pad_token self}"
  shows "unshifted_character_ids self []
           = Inr ([258, 259] @ replicate (nat (max_word_length self) - 2) 260)
     \<and> convert_token_to_id self []
           = Inr ([259, 260] @ replicate (nat (max_word_length self) - 2) 261)"
  using assms(2) init_fields(1-4) [OF assms(1)]
  by (simp add: convert_token_to_id_def unshifted_character_ids_eq utf8_encode_ignore_def)

theorem C9_witness:
  "\<exists>self. init Map.empty default_args = Inr self
     \<and> [] \<notin> {cls_token self, sep_token self, mask_token self, pad_token self}
     \<and> convert_token_to_id self [] = Inr ([259, 260] @ replicate 48 261)"
proof -
  obtain self where i: "init Map.empty default_args = Inr self"
    using init_default by blast
  have n: "[] \<notin> {cls_token self, sep_token self, mask_token self, pad_token self}"
    using init_fields(10-13) [OF i] by (simp add: default_args_def str_simps)
  have "max_word_length self = 50"
    using init_fields(9) [OF i] by (simp add: default_args_def)
  then show ?thesis
    using i n C9_encode_empty [OF i n] by auto
qed

text \<open>
  C10. The lookups in the MLM vocabulary are total. A token that is not a key gets the id
  of the unknown token, which is \<open>None\<close> when the unknown token is not a key either, as
  when no vocabulary file was given; an index that is not a key of the reverse mapping
  gets the unknown token.
\<close>

theorem C10_mlm_lookups:
  "(map_of (mlm_vocab self) token = None \<longrightarrow>
      convert_mlm_token_to_id self token = map_of (mlm_vocab self) (unk_token self))
   \<and> (map_of (mlm_vocab self) token = None \<and> map_of (mlm_vocab self) (unk_token self) = None
        \<longrightarrow> convert_mlm_token_to_id self token = None)
   \<and> (init files a = Inr self \<and> arg_mlm_vocab_file a = None
        \<longrightarrow> convert_mlm_token_to_id self token = None)
   \<and> (map_of (mlm_ids_to_tokens self) index = None \<longrightarrow>
        convert_mlm_id_to_token self index = unk_token self)"
  by (auto simp: convert_mlm_token_to_id_def convert_mlm_id_to_token_def
        init_mlm_vocab(1) split: option.splits)

theorem C10_witness:
  "(\<exists>self. init [str ''v'' \<mapsto> [str ''[UNK]'' @ [10], str ''hello'' @ [10]]]
            (default_args\<lparr>arg_mlm_vocab_file := Some (str ''v'')\<rparr>) = Inr self
      \<and> map_of (mlm_vocab self) (str ''zzz'') = None
      \<and> convert_mlm_token_to_id self (str ''zzz'') = Some 0
      \<and> map_of (mlm_ids_to_tokens self) 7 = None
      \<and> convert_mlm_id_to_token self 7 = str ''[UNK]'')
   \<and> (\<exists>self. init Map.empty default_args = Inr self
      \<and> arg_mlm_vocab_file default_args = None
      \<and> map_of (mlm_vocab self) (str ''zzz'') = None
      \<and> map_of (mlm_vocab self) (unk_token self) = None
      \<and> convert_mlm_token_to_id self (str ''zzz'') = None)"
proof -
  obtain s1 where i1: "init [str ''v'' \<mapsto> [str ''[UNK]'' @ [10], str ''hello'' @ [10]]]
            (default_args\<lparr>arg_mlm_vocab_file := Some (str ''v'')\<rparr>) = Inr s1"
    using init_with_vocab by blast
  have v1: "mlm_vocab s1 = [(str ''[UNK]'', 0), (str ''hello'', 1)]"
    using init_mlm_vocab(1) [OF i1]
    by (simp add: load_vocab_def rstrip_newline_def str_def enumerate_eq_zip upt_rec)
  have r1: "mlm_ids_to_tokens s1 = [(0, str ''[UNK]''), (1, str ''hello'')]"
    using init_mlm_vocab(2) [OF i1] by (simp add: v1)
  have u1: "unk_token s1 = str ''[UNK]''"
    using init_fields(14) [OF i1] by (simp add: default_args_def)
  have a1: "map_of (mlm_vocab s1) (str ''zzz'') = None"
    by (simp add: v1 str_def)
  have b1: "map_of (mlm_ids_to_tokens s1) 7 = None"
    by (simp add: r1)
  have c1: "map_of (mlm_vocab s1) (unk_token s1) = Some 0"
    by (simp add: v1 u1)
  obtain s2 where i2: "init Map.empty default_args = Inr s2"
    using init_default by blast
  have n2: "arg_mlm_vocab_file default_args = None"
    by (simp add: default_args_def)
  have v2: "mlm_vocab s2 = []"
    using init_mlm_vocab(1) [OF i2] by (simp add: n2)
  note t1 = C10_mlm_lookups [of s1 "str ''zzz''" Map.empty default_args 7]
  note t2 = C10_mlm_lookups [of s2 "str ''zzz''" Map.empty default_args 7]
  have p1: "convert_mlm_token_to_id s1 (str ''zzz'') = Some 0"
    using t1 a1 c1 by simp
  have q1: "convert_mlm_id_to_token s1 7 = str ''[UNK]''"
    using t1 b1 u1 by simp
  have p2: "convert_mlm_token_to_id s2 (str ''zzz'') = None"
    using t2 i2 n2 by simp
  show ?thesis
    using i1 a1 p1 b1 q1 i2 n2 v2 p2 by auto
qed

end
